theory Spec2Isabelle
  imports Complex_Main
begin

section \<open>Data model of the relay performance hook\<close>

text \<open>
  The hook \<open>useRelayPerformanceTest\<close> probes a list of relays one after the other and
  compares the event identifiers they returned. JavaScript numbers are modelled exactly:
  clock readings and the counts derived from array lengths as \<open>int\<close> or \<open>nat\<close>, the
  quotients (bandwidth, overlap percentage, progress) as \<open>real\<close>.
\<close>

record RelayPerformanceResult =
  relay :: string
  success :: bool
  latency :: int
  bandwidth :: real
  duration :: int
  eventCount :: nat
  totalBytes :: nat
  followerCount :: nat
  eventIds :: "string list"
  error :: "string option"

record RelayOverlapResult =
  relay1 :: string
  relay2 :: string
  relay1Only :: int
  relay2Only :: int
  common :: int
  relay1Total :: int
  relay2Total :: int
  overlapPercentage :: real

section \<open>Overlap analysis\<close>

text \<open>
  The body of the inner loop of \<open>calculateOverlap\<close>: \<open>set2\<close> is the \<open>Set\<close> built from
  the second relay's identifiers, \<open>common\<close> the length of the first relay's identifier
  array filtered by membership in it. The two subtractions are JavaScript number
  subtractions and can go below zero, so the counts are integers.
\<close>

definition overlap_pair :: "RelayPerformanceResult \<Rightarrow> RelayPerformanceResult \<Rightarrow> RelayOverlapResult" where
  "overlap_pair r1 r2 =
     (let set2 = set (eventIds r2);
          common' = int (length (filter (\<lambda>i. i \<in> set2) (eventIds r1)));
          relay1Only' = int (length (eventIds r1)) - common';
          relay2Only' = int (length (eventIds r2)) - common';
          totalUnique = relay1Only' + relay2Only' + common';
          overlapPercentage' =
            (if totalUnique > 0 then (real_of_int common' / real_of_int totalUnique) * 100 else 0)
      in \<lparr> relay1 = relay r1, relay2 = relay r2,
           relay1Only = relay1Only', relay2Only = relay2Only', common = common',
           relay1Total = int (length (eventIds r1)), relay2Total = int (length (eventIds r2)),
           overlapPercentage = overlapPercentage' \<rparr>)"

text \<open>
  \<open>calculateOverlap\<close>: keep the successful results, then run the two index loops
  \<open>i = 0 .. n-1\<close> and \<open>j = i+1 .. n-1\<close>, pushing one entry per pair.
\<close>

definition calculateOverlap :: "RelayPerformanceResult list \<Rightarrow> RelayOverlapResult list" where
  "calculateOverlap rs =
     (let successfulResults = filter success rs;
          n = length successfulResults
      in concat (map (\<lambda>i. map (\<lambda>j. overlap_pair (successfulResults ! i) (successfulResults ! j))
                               [Suc i ..< n])
                     [0 ..< n]))"

section \<open>The relay probe\<close>

text \<open>
  A value thrown in JavaScript: the handlers only ask whether it is an \<open>Error\<close>
  instance, and read its message if so.
\<close>

datatype js_thrown = Error string | NonError

text \<open>\<open>err instanceof Error ? err.message : dflt\<close>, as every handler of the hook has it.\<close>

definition message_or :: "string \<Rightarrow> js_thrown \<Rightarrow> string" where
  "message_or dflt err = (case err of Error m \<Rightarrow> m | NonError \<Rightarrow> dflt)"

text \<open>
  The fields of a \<open>NostrEvent\<close> that the hook reads: the identifier (\<open>event.id\<close>) and the
  tag list (\<open>event.tags\<close>, an array of string arrays).
\<close>

record NostrEvent =
  event_id :: string
  tags :: "string list list"

text \<open>
  Everything outside the hook that one call of \<open>testRelayPerformance\<close> depends on:
  whether the dynamic import and the pool construction throw, the outcome of
  \<open>testPool.query\<close> (the events, or the value thrown on a timeout or a connection
  error), the three readings of \<open>Date.now()\<close> in the order the code takes them
  (\<open>startTime\<close>, \<open>endTime\<close>, and the reading inside the loop for the first event), and the
  byte length of the JSON encoding of an event as \<open>calculateEventSize\<close> measures it.
\<close>

record probe_world =
  import_failure :: "js_thrown option"
  query_outcome :: "js_thrown + NostrEvent list"
  now_start :: int
  now_end :: int
  now_first :: int
  calculateEventSize :: "NostrEvent \<Rightarrow> nat"

text \<open>The variables the \<open>for ... of\<close> loop over the events updates.\<close>

record probe_acc =
  firstEventTime :: "int option"
  acc_eventCount :: nat
  acc_totalBytes :: nat
  acc_eventIds :: "string list"

fun process_events :: "probe_world \<Rightarrow> NostrEvent list \<Rightarrow> probe_acc \<Rightarrow> probe_acc" where
  "process_events w [] acc = acc"
| "process_events w (ev # evs) acc =
     process_events w evs
       \<lparr> firstEventTime =
           (if firstEventTime acc = None then Some (now_first w) else firstEventTime acc),
         acc_eventCount = acc_eventCount acc + 1,
         acc_totalBytes = acc_totalBytes acc + calculateEventSize w ev,
         acc_eventIds = acc_eventIds acc @ [event_id ev] \<rparr>"

text \<open>
  The \<open>try\<close> block of \<open>testRelayPerformance\<close>; \<open>Inl\<close> is a value thrown inside it.
  \<open>firstEventTime ? ... : duration\<close> tests truthiness, so a reading of \<open>0\<close> counts as
  absent.
\<close>

definition testRelayPerformance_try ::
  "probe_world \<Rightarrow> string \<Rightarrow> string \<Rightarrow> string list \<Rightarrow> js_thrown + RelayPerformanceResult" where
  "testRelayPerformance_try w userPubkey url followers =
     (case import_failure w of
        Some err \<Rightarrow> Inl err
      | None \<Rightarrow>
          (let startTime = now_start w in
           case query_outcome w of
             Inl err \<Rightarrow> Inl err
           | Inr events \<Rightarrow>
               (let endTime = now_end w;
                    acc = process_events w events
                            \<lparr> firstEventTime = None, acc_eventCount = 0,
                              acc_totalBytes = 0, acc_eventIds = [] \<rparr>;
                    duration' = endTime - startTime;
                    latency' = (case firstEventTime acc of
                                  None \<Rightarrow> duration'
                                | Some t \<Rightarrow> if t = 0 then duration' else t - startTime);
                    bandwidth' = (if duration' > 0
                                  then (real (acc_totalBytes acc) / real_of_int duration') * 1000
                                  else 0)
                in Inr \<lparr> relay = url, success = True, latency = latency',
                         bandwidth = bandwidth', duration = duration',
                         eventCount = acc_eventCount acc, totalBytes = acc_totalBytes acc,
                         followerCount = length followers, eventIds = acc_eventIds acc,
                         error = None \<rparr>)))"

text \<open>
  \<open>testRelayPerformance\<close> with its \<open>catch\<close> block. The result type keeps the
  possibility of a thrown value, so that "never throws" is a statement about the function.
\<close>

definition testRelayPerformance ::
  "probe_world \<Rightarrow> string \<Rightarrow> string \<Rightarrow> string list \<Rightarrow> js_thrown + RelayPerformanceResult" where
  "testRelayPerformance w userPubkey url followers =
     (case testRelayPerformance_try w userPubkey url followers of
        Inr r \<Rightarrow> Inr r
      | Inl err \<Rightarrow>
          Inr \<lparr> relay = url, success = False, latency = 0, bandwidth = 0, duration = 0,
                eventCount = 0, totalBytes = 0, followerCount = length followers,
                eventIds = [],
                error = Some (message_or ''Unknown error'' err) \<rparr>)"

section \<open>The orchestrator\<close>

text \<open>
  The six \<open>useState\<close> variables of the hook. The state variable \<open>error\<close> is named
  \<open>run_error\<close> here, since \<open>RelayPerformanceResult\<close> has a field \<open>error\<close> already.
\<close>

record RunState =
  isRunning :: bool
  results :: "RelayPerformanceResult list option"
  overlapResults :: "RelayOverlapResult list option"
  progress :: real
  currentPhase :: string
  run_error :: "string option"

text \<open>
  A run is the sequence of effects it performs, in the order of the source: the calls of
  the state setters, and the two kinds of \<open>await\<close> on the network.
\<close>

datatype action =
    SetIsRunning bool
  | SetResults "RelayPerformanceResult list option"
  | SetOverlapResults "RelayOverlapResult list option"
  | SetProgress real
  | SetCurrentPhase string
  | SetError "string option"
  | AwaitFollowQuery string
  | AwaitProbe string

fun is_await :: "action \<Rightarrow> bool" where
  "is_await (AwaitFollowQuery _) = True"
| "is_await (AwaitProbe _) = True"
| "is_await _ = False"

fun apply_action :: "RunState \<Rightarrow> action \<Rightarrow> RunState" where
  "apply_action s (SetIsRunning b) = s\<lparr>isRunning := b\<rparr>"
| "apply_action s (SetResults r) = s\<lparr>results := r\<rparr>"
| "apply_action s (SetOverlapResults r) = s\<lparr>overlapResults := r\<rparr>"
| "apply_action s (SetProgress p) = s\<lparr>progress := p\<rparr>"
| "apply_action s (SetCurrentPhase p) = s\<lparr>currentPhase := p\<rparr>"
| "apply_action s (SetError e) = s\<lparr>run_error := e\<rparr>"
| "apply_action s (AwaitFollowQuery _) = s"
| "apply_action s (AwaitProbe _) = s"

definition exec :: "RunState \<Rightarrow> action list \<Rightarrow> RunState" where
  "exec s acts = foldl apply_action s acts"

text \<open>
  What can be seen of the hook's state during a run. The \<open>useState\<close> setters only queue
  their updates; React (the application mounts with \<open>createRoot\<close>) applies the updates
  queued by one synchronous stretch of code in a single commit, after that stretch has
  ended. A run is suspended only at its \<open>await\<close>s, so the states that a render can
  observe are the state at each \<open>await\<close>, with every update queued before it applied, and
  the state once the run has returned. \<open>visible_from s acts\<close> walks the effects \<open>acts\<close>
  with \<open>s\<close> as the state accumulated so far and lists those states in order;
  \<open>visible_states\<close> puts the state before the call in front.
\<close>

fun visible_from :: "RunState \<Rightarrow> action list \<Rightarrow> RunState list" where
  "visible_from s [] = [s]"
| "visible_from s (a # acts) =
     (if is_await a then s # visible_from s acts
      else visible_from (apply_action s a) acts)"

definition visible_states :: "RunState \<Rightarrow> action list \<Rightarrow> RunState list" where
  "visible_states s acts = s # visible_from s acts"

text \<open>
  Classes of effects, for reasoning about traces: any call of \<open>setResults\<close>, any call of
  \<open>setIsRunning\<close>, and the effects that are neither.
\<close>

fun sets_results :: "action \<Rightarrow> bool" where
  "sets_results (SetResults _) = True"
| "sets_results _ = False"

fun sets_running :: "action \<Rightarrow> bool" where
  "sets_running (SetIsRunning _) = True"
| "sets_running _ = False"

definition calm :: "action \<Rightarrow> bool" where
  "calm a = (\<not> sets_results a \<and> \<not> sets_running a)"

text \<open>
  What a run depends on outside the hook: the outcome of the follow list query
  (\<open>nostr.query\<close> for kind 3), and the world of the \<open>i\<close>-th probe.
\<close>

record run_world =
  follow_query :: "js_thrown + NostrEvent list"
  probe_worlds :: "nat \<Rightarrow> probe_world"

text \<open>
  JavaScript array indexing: an index out of range gives \<open>undefined\<close>. A string is
  truthy when it is not empty.
\<close>

definition js_index :: "'a list \<Rightarrow> nat \<Rightarrow> 'a option" where
  "js_index xs i = (if i < length xs then Some (xs ! i) else None)"

definition is_p_tag :: "string list \<Rightarrow> bool" where
  "is_p_tag tag = (js_index tag 0 = Some ''p'' \<and>
                   (case js_index tag 1 of None \<Rightarrow> False | Some v \<Rightarrow> v \<noteq> []))"

text \<open>
  \<open>getFollowers\<close>: the effects it performs and what it returns or throws. Every value
  thrown inside is rethrown by the \<open>catch\<close> block as a new \<open>Error\<close>. After the filter
  each tag has a second element, which \<open>tag[1]\<close> reads.
\<close>

definition getFollowers :: "run_world \<Rightarrow> string \<Rightarrow> action list \<times> (js_thrown + string list)" where
  "getFollowers w userPubkey =
     (let rethrow = (\<lambda>err. Inl (Error (message_or ''Failed to fetch follow list'' err)));
          before = [SetCurrentPhase ''Fetching your follow list...'', SetProgress 10,
                    AwaitFollowQuery userPubkey]
      in case follow_query w of
           Inl err \<Rightarrow> (before, rethrow err)
         | Inr followEvents \<Rightarrow>
             if length followEvents = 0
             then (before,
                   rethrow (Error ''No follow list found. Please follow some users first.''))
             else
               (let followEvent = followEvents ! 0;
                    followers = take 50 (map (\<lambda>tag. tag ! 1)
                                          (filter is_p_tag (tags followEvent)))
                in if length followers = 0
                   then (before,
                         rethrow (Error ''Your follow list is empty. Please follow some users first.''))
                   else (before @ [SetProgress 25], Inr followers)))"

text \<open>Decimal rendering of a count in a template string.\<close>

fun show_nat :: "nat \<Rightarrow> string" where
  "show_nat n = (if n < 10 then [''0123456789'' ! n]
                 else show_nat (n div 10) @ [''0123456789'' ! (n mod 10)])"

declare show_nat.simps [simp del]

text \<open>\<open>String.prototype.replace\<close> with a string pattern: the first occurrence only.\<close>

fun replace_first :: "string \<Rightarrow> string \<Rightarrow> string \<Rightarrow> string" where
  "replace_first pat rep [] = (if pat = [] then rep else [])"
| "replace_first pat rep (c # cs) =
     (if take (length pat) (c # cs) = pat then rep @ drop (length pat) (c # cs)
      else c # replace_first pat rep cs)"

text \<open>
  The probe loop of \<open>startTest\<close>, from index \<open>i\<close> on: \<open>rest\<close> holds the relays not yet
  probed, \<open>n\<close> is \<open>relays.length\<close>, \<open>testResults\<close> the results pushed so far. A value
  thrown by a probe would leave the loop.
\<close>

fun probe_loop ::
  "run_world \<Rightarrow> string \<Rightarrow> string list \<Rightarrow> nat \<Rightarrow> nat \<Rightarrow> string list \<Rightarrow>
   RelayPerformanceResult list \<Rightarrow> action list \<times> (js_thrown + RelayPerformanceResult list)" where
  "probe_loop w userPubkey followers n i [] testResults = ([], Inr testResults)"
| "probe_loop w userPubkey followers n i (url # rest) testResults =
     (let acts = [SetCurrentPhase (''Analyzing '' @ replace_first ''wss://'' [] url @ ''...''),
                  SetProgress (30 + (real i / real n) * 60),
                  AwaitProbe url]
      in case testRelayPerformance (probe_worlds w i) userPubkey url followers of
           Inl err \<Rightarrow> (acts, Inl err)
         | Inr result \<Rightarrow>
             (case probe_loop w userPubkey followers n (Suc i) rest (testResults @ [result]) of
                (acts', r) \<Rightarrow> (acts @ acts', r)))"

text \<open>The end of the \<open>try\<close> block, once every relay has been probed.\<close>

definition finish_actions :: "RelayPerformanceResult list \<Rightarrow> action list" where
  "finish_actions testResults =
     (let overlap = calculateOverlap testResults;
          failedTests = filter (\<lambda>r. \<not> success r) testResults
      in [SetCurrentPhase ''Calculating overlap...'', SetProgress 95,
          SetOverlapResults (Some overlap),
          SetCurrentPhase ''Analysis completed!'', SetProgress 100,
          SetResults (Some testResults)] @
         (if length failedTests = length testResults
          then [SetError (Some ''All relays failed analysis. Please check your internet connection and try again.'')]
          else if length failedTests > 0
          then [SetError (Some (show_nat (length failedTests) @ '' out of '' @
                                show_nat (length testResults) @ '' relays failed analysis.''))]
          else []))"

definition catch_actions :: "js_thrown \<Rightarrow> action list" where
  "catch_actions err = [SetError (Some (message_or ''Analysis failed'' err)), SetProgress 0]"

text \<open>
  The body of the \<open>try\<close> block of \<open>startTest\<close>, followed by the \<open>catch\<close> block if it
  throws.
\<close>

definition try_actions :: "run_world \<Rightarrow> string \<Rightarrow> string list \<Rightarrow> action list" where
  "try_actions w userPubkey relays =
     (case getFollowers w userPubkey of
        (acts, Inl err) \<Rightarrow> acts @ catch_actions err
      | (acts, Inr followers) \<Rightarrow>
          (let acts1 = acts @
                 [SetCurrentPhase (''Analyzing '' @ show_nat (length relays) @ '' relays with '' @
                                   show_nat (length followers) @ '' followers...''),
                  SetProgress 30]
           in case probe_loop w userPubkey followers (length relays) 0 relays [] of
                (acts2, Inl err) \<Rightarrow> acts1 @ acts2 @ catch_actions err
              | (acts2, Inr testResults) \<Rightarrow> acts1 @ acts2 @ finish_actions testResults))"

text \<open>
  \<open>startTest\<close>. The function is built by \<open>useCallback\<close> with \<open>isRunning\<close> among its
  dependencies, and its guard reads the constant \<open>isRunning\<close> of the render that built
  it: \<open>captured\<close> is that value. It is not read from the state the setters act on, and
  the two differ when the function of an earlier render is called, or when it is called
  again before the hook has rendered anew. With \<open>captured\<close> true the call does nothing;
  else it performs the resets, the \<open>try\<close> block and the \<open>finally\<close> block.
\<close>

definition startTest :: "run_world \<Rightarrow> bool \<Rightarrow> string \<Rightarrow> string list \<Rightarrow> action list" where
  "startTest w captured userPubkey relays =
     (if captured then []
      else [SetIsRunning True, SetResults None, SetOverlapResults None, SetProgress 0,
            SetError None] @
           try_actions w userPubkey relays @
           [SetIsRunning False])"

text \<open>The state of the hook when it is mounted.\<close>

definition initial_state :: RunState where
  "initial_state = \<lparr> isRunning = False, results = None, overlapResults = None, progress = 0,
                     currentPhase = [], run_error = None \<rparr>"

section \<open>Concrete inputs\<close>

definition scenario_r1 :: RelayPerformanceResult where
  "scenario_r1 = \<lparr> relay = ''r1'', success = True, latency = 5, bandwidth = 0, duration = 5,
     eventCount = 3, totalBytes = 0, followerCount = 1, eventIds = [''a'', ''b'', ''c''],
     error = None \<rparr>"

definition scenario_r2 :: RelayPerformanceResult where
  "scenario_r2 = \<lparr> relay = ''r2'', success = True, latency = 5, bandwidth = 0, duration = 5,
     eventCount = 3, totalBytes = 0, followerCount = 1, eventIds = [''b'', ''c'', ''d''],
     error = None \<rparr>"

definition disjoint_r1 :: RelayPerformanceResult where
  "disjoint_r1 = \<lparr> relay = ''r1'', success = True, latency = 5, bandwidth = 0, duration = 5,
     eventCount = 1, totalBytes = 0, followerCount = 1, eventIds = [''a''], error = None \<rparr>"

definition disjoint_r2 :: RelayPerformanceResult where
  "disjoint_r2 = \<lparr> relay = ''r2'', success = True, latency = 5, bandwidth = 0, duration = 5,
     eventCount = 1, totalBytes = 0, followerCount = 1, eventIds = [''b''], error = None \<rparr>"

definition empty_r1 :: RelayPerformanceResult where
  "empty_r1 = \<lparr> relay = ''r1'', success = True, latency = 5, bandwidth = 0, duration = 5,
     eventCount = 0, totalBytes = 0, followerCount = 1, eventIds = [], error = None \<rparr>"

definition empty_r2 :: RelayPerformanceResult where
  "empty_r2 = \<lparr> relay = ''r2'', success = True, latency = 5, bandwidth = 0, duration = 5,
     eventCount = 0, totalBytes = 0, followerCount = 1, eventIds = [], error = None \<rparr>"

text \<open>
  A probe whose query returns one event of 100 bytes; the clock reads 1000 before the
  query, 1005 when the query has returned, and 1006 when the loop reaches the event.
\<close>

definition late_first_world :: probe_world where
  "late_first_world = \<lparr> import_failure = None,
     query_outcome = Inr [\<lparr> event_id = ''e1'', tags = [] \<rparr>],
     now_start = 1000, now_end = 1005, now_first = 1006,
     calculateEventSize = (\<lambda>_. 100) \<rparr>"

text \<open>A probe whose query times out.\<close>

definition timeout_world :: probe_world where
  "timeout_world = \<lparr> import_failure = None,
     query_outcome = Inl (Error ''The operation timed out.''),
     now_start = 1000, now_end = 31000, now_first = 31000,
     calculateEventSize = (\<lambda>_. 100) \<rparr>"

text \<open>
  A follow list with one usable \<open>p\<close> tag, a \<open>p\<close> tag without a value, a \<open>p\<close> tag with
  an empty value and a tag of another kind; every probe times out.
\<close>

definition follow_world :: run_world where
  "follow_world = \<lparr> follow_query =
       Inr [\<lparr> event_id = ''f1'',
              tags = [[''p'', ''alice''], [''p''], [''p'', []], [''e'', ''x'']] \<rparr>],
     probe_worlds = (\<lambda>_. timeout_world) \<rparr>"


text \<open>A follow list with one follower; every probe returns one event, as above.\<close>

definition ok_world :: run_world where
  "ok_world = \<lparr> follow_query = Inr [\<lparr> event_id = ''f1'', tags = [[''p'', ''alice'']] \<rparr>],
     probe_worlds = (\<lambda>_. late_first_world) \<rparr>"

section \<open>Properties of the overlap analysis\<close>

lemma calculateOverlap_elem:
  assumes "ov \<in> set (calculateOverlap rs)"
  obtains r1 r2 where "r1 \<in> set rs" "success r1" "r2 \<in> set rs" "success r2"
    "ov = overlap_pair r1 r2"
proof -
  let ?sr = "filter success rs"
  have "\<exists>i j. i < length ?sr \<and> j < length ?sr \<and> ov = overlap_pair (?sr ! i) (?sr ! j)"
  proof -
    from assms obtain i j where "Suc i \<le> j" "j < length ?sr"
      and "ov = overlap_pair (?sr ! i) (?sr ! j)"
      by (auto simp: calculateOverlap_def Let_def)
    moreover from this have "i < length ?sr" by simp
    ultimately show ?thesis by blast
  qed
  then obtain i j where ij: "i < length ?sr" "j < length ?sr"
    and ov: "ov = overlap_pair (?sr ! i) (?sr ! j)"
    by blast
  have "?sr ! i \<in> set ?sr" "?sr ! j \<in> set ?sr"
    using ij by (simp_all only: nth_mem)
  then have "?sr ! i \<in> set rs \<and> success (?sr ! i)" "?sr ! j \<in> set rs \<and> success (?sr ! j)"
    by simp_all
  with ov that show thesis by blast
qed

lemma calculateOverlap_two:
  "calculateOverlap [r1, r2] = (if success r1 \<and> success r2 then [overlap_pair r1 r2] else [])"
  by (simp add: calculateOverlap_def Let_def upt_conv_Cons)

text \<open>
  Claim C6. Every entry of the output of \<open>calculateOverlap\<close> satisfies
  \<open>relay1Only + common = relay1Total\<close> and \<open>relay2Only + common = relay2Total\<close>,
  whatever the input list is.
\<close>

theorem calculateOverlap_partition:
  "ov \<in> set (calculateOverlap rs) \<Longrightarrow>
     relay1Only ov + common ov = relay1Total ov \<and> relay2Only ov + common ov = relay2Total ov"
  by (erule calculateOverlap_elem) (simp add: overlap_pair_def Let_def)

theorem calculateOverlap_partition_witness:
  "overlap_pair scenario_r1 scenario_r2 \<in> set (calculateOverlap [scenario_r1, scenario_r2]) \<and>
   relay1Only (overlap_pair scenario_r1 scenario_r2) + common (overlap_pair scenario_r1 scenario_r2)
     = relay1Total (overlap_pair scenario_r1 scenario_r2) \<and>
   relay2Only (overlap_pair scenario_r1 scenario_r2) + common (overlap_pair scenario_r1 scenario_r2)
     = relay2Total (overlap_pair scenario_r1 scenario_r2)"
  using calculateOverlap_partition
          [of "overlap_pair scenario_r1 scenario_r2" "[scenario_r1, scenario_r2]"]
  by (simp add: calculateOverlap_two scenario_r1_def scenario_r2_def)

text \<open>
  Claim C8. For two successful results whose identifiers are \<open>[a, b, c]\<close> and
  \<open>[b, c, d]\<close>, with four distinct identifiers, \<open>calculateOverlap\<close> returns exactly one
  entry, with \<open>common = 2\<close>, \<open>relay1Only = 1\<close>, \<open>relay2Only = 1\<close> and an overlap percentage
  of \<open>50\<close>.
\<close>

theorem calculateOverlap_scenario_A:
  assumes "success r1" "success r2" "eventIds r1 = [a, b, c]" "eventIds r2 = [b, c, d]"
    and "distinct [a, b, c, d]"
  shows "calculateOverlap [r1, r2] =
    [\<lparr> relay1 = relay r1, relay2 = relay r2, relay1Only = 1, relay2Only = 1, common = 2,
        relay1Total = 3, relay2Total = 3, overlapPercentage = 50 \<rparr>]"
  using assms by (simp add: calculateOverlap_two overlap_pair_def Let_def)

theorem calculateOverlap_scenario_A_witness:
  "success scenario_r1 \<and> success scenario_r2 \<and>
   eventIds scenario_r1 = [''a'', ''b'', ''c''] \<and> eventIds scenario_r2 = [''b'', ''c'', ''d''] \<and>
   distinct [''a'', ''b'', ''c'', ''d''] \<and>
   calculateOverlap [scenario_r1, scenario_r2] =
    [\<lparr> relay1 = ''r1'', relay2 = ''r2'', relay1Only = 1, relay2Only = 1, common = 2,
        relay1Total = 3, relay2Total = 3, overlapPercentage = 50 \<rparr>]"
  using calculateOverlap_scenario_A
          [of scenario_r1 scenario_r2 "''a''" "''b''" "''c''" "''d''"]
  by (simp add: scenario_r1_def scenario_r2_def)

lemma common_le_second:
  assumes "distinct xs"
  shows "length (filter (\<lambda>i. i \<in> set ys) xs) \<le> length ys"
proof -
  have "distinct (filter (\<lambda>i. i \<in> set ys) xs)" using assms by simp
  then have "length (filter (\<lambda>i. i \<in> set ys) xs) = card (set (filter (\<lambda>i. i \<in> set ys) xs))"
    by (simp only: distinct_card)
  also have "\<dots> \<le> card (set ys)" by (rule card_mono) auto
  also have "\<dots> \<le> length ys" by (rule card_length)
  finally show ?thesis .
qed

lemma overlap_pair_range:
  assumes "distinct (eventIds r1)"
  shows "0 \<le> overlapPercentage (overlap_pair r1 r2) \<and>
     overlapPercentage (overlap_pair r1 r2) \<le> 100 \<and>
     (overlapPercentage (overlap_pair r1 r2) = 0 \<longleftrightarrow> common (overlap_pair r1 r2) = 0) \<and>
     (relay1Only (overlap_pair r1 r2) + relay2Only (overlap_pair r1 r2)
        + common (overlap_pair r1 r2) = 0 \<longrightarrow> overlapPercentage (overlap_pair r1 r2) = 0)"
proof -
  define c where "c = length (filter (\<lambda>i. i \<in> set (eventIds r2)) (eventIds r1))"
  define n1 where "n1 = length (eventIds r1)"
  define n2 where "n2 = length (eventIds r2)"
  have c1: "c \<le> n1" unfolding c_def n1_def by simp
  have c2: "c \<le> n2" unfolding c_def n2_def using assms by (rule common_le_second)
  define t where "t = int n1 - int c + (int n2 - int c) + int c"
  have tc: "int c \<le> t" using c1 c2 by (simp add: t_def)
  have op: "overlapPercentage (overlap_pair r1 r2) =
              (if t > 0 then (real_of_int (int c) / real_of_int t) * 100 else 0)"
    and cm: "common (overlap_pair r1 r2) = int c"
    and r1o: "relay1Only (overlap_pair r1 r2) = int n1 - int c"
    and r2o: "relay2Only (overlap_pair r1 r2) = int n2 - int c"
    by (simp_all add: overlap_pair_def Let_def c_def n1_def n2_def t_def)
  show ?thesis
  proof (cases "t > 0")
    case True
    define q where "q = real_of_int (int c) / real_of_int t"
    have "q \<le> 1" using True tc by (simp add: q_def)
    moreover have "0 \<le> q" using True by (simp add: q_def)
    moreover have "q = 0 \<longleftrightarrow> c = 0" using True by (simp add: q_def)
    moreover have "overlapPercentage (overlap_pair r1 r2) = q * 100"
      using True by (simp add: op q_def)
    ultimately show ?thesis using True c1 c2 by (simp add: cm r1o r2o)
  next
    case False
    with tc have "c = 0" by simp
    with False show ?thesis by (simp add: op cm)
  qed
qed

text \<open>
  Claim C2, as the code has it. When the successful results carry duplicate-free
  identifier lists, every entry of the output has its overlap percentage between \<open>0\<close> and
  \<open>100\<close>; the percentage is \<open>0\<close> exactly when \<open>common\<close> is \<open>0\<close>, and so in particular
  whenever \<open>relay1Only + relay2Only + common\<close> is \<open>0\<close>.
\<close>

theorem calculateOverlap_percentage:
  assumes "\<forall>r \<in> set rs. success r \<longrightarrow> distinct (eventIds r)"
    and "ov \<in> set (calculateOverlap rs)"
  shows "0 \<le> overlapPercentage ov \<and> overlapPercentage ov \<le> 100 \<and>
     (overlapPercentage ov = 0 \<longleftrightarrow> common ov = 0) \<and>
     (relay1Only ov + relay2Only ov + common ov = 0 \<longrightarrow> overlapPercentage ov = 0)"
proof -
  from assms(2) obtain r1 r2 where "r1 \<in> set rs" "success r1" and ov: "ov = overlap_pair r1 r2"
    by (rule calculateOverlap_elem)
  with assms(1) have "distinct (eventIds r1)" by blast
  then show ?thesis unfolding ov by (rule overlap_pair_range)
qed

theorem calculateOverlap_percentage_witness:
  "distinct (eventIds scenario_r1) \<and> distinct (eventIds scenario_r2) \<and>
   success scenario_r1 \<and> success scenario_r2 \<and>
   overlap_pair scenario_r1 scenario_r2 \<in> set (calculateOverlap [scenario_r1, scenario_r2]) \<and>
   0 \<le> overlapPercentage (overlap_pair scenario_r1 scenario_r2) \<and>
   overlapPercentage (overlap_pair scenario_r1 scenario_r2) \<le> 100 \<and>
   overlapPercentage (overlap_pair scenario_r1 scenario_r2) \<noteq> 0 \<and>
   common (overlap_pair scenario_r1 scenario_r2) \<noteq> 0 \<and>
   overlap_pair empty_r1 empty_r2 \<in> set (calculateOverlap [empty_r1, empty_r2]) \<and>
   relay1Only (overlap_pair empty_r1 empty_r2) + relay2Only (overlap_pair empty_r1 empty_r2)
     + common (overlap_pair empty_r1 empty_r2) = 0 \<and>
   overlapPercentage (overlap_pair empty_r1 empty_r2) = 0"
  using calculateOverlap_percentage
          [of "[scenario_r1, scenario_r2]" "overlap_pair scenario_r1 scenario_r2"]
        calculateOverlap_percentage
          [of "[empty_r1, empty_r2]" "overlap_pair empty_r1 empty_r2"]
  by (simp add: calculateOverlap_two overlap_pair_def Let_def
        scenario_r1_def scenario_r2_def empty_r1_def empty_r2_def)

text \<open>
  The claim as the specification words it asks for a zero percentage exactly when
  \<open>relay1Only + relay2Only + common\<close> is \<open>0\<close>. Two relays that returned one event each,
  with different identifiers, have a percentage of \<open>0\<close> and a sum of \<open>2\<close>.
\<close>

theorem calculateOverlap_zero_counterexample:
  "distinct (eventIds disjoint_r1) \<and> distinct (eventIds disjoint_r2) \<and>
   success disjoint_r1 \<and> success disjoint_r2 \<and>
   calculateOverlap [disjoint_r1, disjoint_r2] = [overlap_pair disjoint_r1 disjoint_r2] \<and>
   overlapPercentage (overlap_pair disjoint_r1 disjoint_r2) = 0 \<and>
   relay1Only (overlap_pair disjoint_r1 disjoint_r2)
     + relay2Only (overlap_pair disjoint_r1 disjoint_r2)
     + common (overlap_pair disjoint_r1 disjoint_r2) = 2"
  by (simp add: calculateOverlap_two overlap_pair_def Let_def disjoint_r1_def disjoint_r2_def)

section \<open>Properties of the relay probe\<close>

lemma process_events_count:
  "acc_eventCount (process_events w evs acc) = acc_eventCount acc + length evs"
  by (induction evs arbitrary: acc) simp_all

lemma process_events_ids:
  "acc_eventIds (process_events w evs acc) = acc_eventIds acc @ map event_id evs"
  by (induction evs arbitrary: acc) simp_all

lemma process_events_first:
  "firstEventTime (process_events w evs acc) =
     (if firstEventTime acc = None \<and> evs \<noteq> [] then Some (now_first w) else firstEventTime acc)"
  by (induction evs arbitrary: acc) simp_all

lemma testRelayPerformance_total:
  "\<exists>r. testRelayPerformance w userPubkey url followers = Inr r"
  by (simp add: testRelayPerformance_def split: sum.split)

text \<open>
  Claim C5. \<open>testRelayPerformance\<close> never throws: it returns a result in every world. When
  the import or the query throws \<open>err\<close>, the result has \<open>success = false\<close>, zero latency,
  bandwidth, duration, event count and byte count, no event identifiers, the message of
  \<open>err\<close> (or \<open>Unknown error\<close>) as its error, and the length of the follower list as its
  follower count.
\<close>

theorem testRelayPerformance_never_throws:
  "(\<exists>r. testRelayPerformance w userPubkey url followers = Inr r) \<and>
   (import_failure w = Some err \<or> (import_failure w = None \<and> query_outcome w = Inl err) \<longrightarrow>
      testRelayPerformance w userPubkey url followers =
        Inr \<lparr> relay = url, success = False, latency = 0, bandwidth = 0, duration = 0,
              eventCount = 0, totalBytes = 0, followerCount = length followers,
              eventIds = [], error = Some (message_or ''Unknown error'' err) \<rparr>)"
proof (rule conjI)
  show "\<exists>r. testRelayPerformance w userPubkey url followers = Inr r"
    by (rule testRelayPerformance_total)
next
  show "import_failure w = Some err \<or> (import_failure w = None \<and> query_outcome w = Inl err) \<longrightarrow>
      testRelayPerformance w userPubkey url followers =
        Inr \<lparr> relay = url, success = False, latency = 0, bandwidth = 0, duration = 0,
              eventCount = 0, totalBytes = 0, followerCount = length followers,
              eventIds = [], error = Some (message_or ''Unknown error'' err) \<rparr>"
    by (auto simp: testRelayPerformance_def testRelayPerformance_try_def)
qed

theorem testRelayPerformance_never_throws_witness:
  "import_failure timeout_world = None \<and>
   query_outcome timeout_world = Inl (Error ''The operation timed out.'') \<and>
   testRelayPerformance timeout_world ''pk'' ''wss://r1'' [''alice'', ''bob''] =
     Inr \<lparr> relay = ''wss://r1'', success = False, latency = 0, bandwidth = 0, duration = 0,
           eventCount = 0, totalBytes = 0, followerCount = 2,
           eventIds = [], error = Some ''The operation timed out.'' \<rparr>"
  using testRelayPerformance_never_throws
          [of timeout_world "''pk''" "''wss://r1''" "[''alice'', ''bob'']"
              "Error ''The operation timed out.''"]
  by (simp add: timeout_world_def message_or_def)

text \<open>
  Claim C9. Every result that \<open>testRelayPerformance\<close> returns, successful or not, has
  \<open>eventCount\<close> equal to the length of \<open>eventIds\<close>.
\<close>

theorem testRelayPerformance_count_ids:
  "testRelayPerformance w userPubkey url followers = Inr r \<Longrightarrow>
     eventCount r = length (eventIds r)"
  by (auto simp: testRelayPerformance_def testRelayPerformance_try_def Let_def
        process_events_count process_events_ids
      split: sum.splits option.splits)

theorem testRelayPerformance_count_ids_witness:
  "testRelayPerformance late_first_world ''pk'' ''wss://r1'' [''alice''] =
     Inr \<lparr> relay = ''wss://r1'', success = True, latency = 6, bandwidth = 20000, duration = 5,
           eventCount = 1, totalBytes = 100, followerCount = 1, eventIds = [''e1''],
           error = None \<rparr> \<and>
   eventCount \<lparr> relay = ''wss://r1'', success = True, latency = 6, bandwidth = 20000,
           duration = 5, eventCount = 1, totalBytes = 100, followerCount = 1,
           eventIds = [''e1''], error = None \<rparr> = length [''e1'']"
  using testRelayPerformance_count_ids
          [of late_first_world "''pk''" "''wss://r1''" "[''alice'']"
              "\<lparr> relay = ''wss://r1'', success = True, latency = 6, bandwidth = 20000,
                 duration = 5, eventCount = 1, totalBytes = 100, followerCount = 1,
                 eventIds = [''e1''], error = None \<rparr>"]
  by (simp add: testRelayPerformance_def testRelayPerformance_try_def Let_def
        late_first_world_def)

text \<open>
  What the code guarantees about latency and duration. Without events the latency is the
  duration. With events, the latency is measured from the reading the loop takes after
  the query has returned, so with a clock that does not run backwards the latency is
  at least the duration.
\<close>

lemma testRelayPerformance_latency_no_events:
  assumes "testRelayPerformance w userPubkey url followers = Inr r" "success r"
    and "eventCount r = 0"
  shows "latency r = duration r"
proof -
  from assms(1,2) obtain events where q: "import_failure w = None" "query_outcome w = Inr events"
    by (auto simp: testRelayPerformance_def testRelayPerformance_try_def Let_def
          split: sum.splits option.splits)
  with assms(1,3) have "events = []"
    by (auto simp: testRelayPerformance_def testRelayPerformance_try_def Let_def
          process_events_count)
  with q assms(1) show ?thesis
    by (auto simp: testRelayPerformance_def testRelayPerformance_try_def Let_def)
qed

lemma testRelayPerformance_latency_events:
  assumes "testRelayPerformance w userPubkey url followers = Inr r" "success r"
    and "eventCount r \<ge> 1" and "now_end w \<le> now_first w"
  shows "duration r \<le> latency r"
proof -
  from assms(1,2) obtain events where q: "import_failure w = None" "query_outcome w = Inr events"
    by (auto simp: testRelayPerformance_def testRelayPerformance_try_def Let_def
          split: sum.splits option.splits)
  with assms show ?thesis
    by (auto simp: testRelayPerformance_def testRelayPerformance_try_def Let_def
          process_events_first)
qed

text \<open>
  Claim C3 asks for \<open>latency \<le> duration\<close> when at least one event arrived. The probe
  reads the clock for \<open>endTime\<close> before it enters the loop that reads it for
  \<open>firstEventTime\<close>: when the clock ticks between the two readings, the result is
  successful, has one event, and its latency (6) exceeds its duration (5).
\<close>

theorem testRelayPerformance_latency_exceeds_duration:
  "testRelayPerformance late_first_world ''pk'' ''wss://r1'' [''alice''] =
     Inr \<lparr> relay = ''wss://r1'', success = True, latency = 6, bandwidth = 20000, duration = 5,
           eventCount = 1, totalBytes = 100, followerCount = 1, eventIds = [''e1''],
           error = None \<rparr>"
  by (simp add: testRelayPerformance_def testRelayPerformance_try_def Let_def
        late_first_world_def)

section \<open>Properties of the follower resolver and the orchestrator\<close>

lemma is_p_tag_nth:
  assumes "is_p_tag tag"
  shows "js_index tag 0 = Some ''p'' \<and> js_index tag 1 = Some (tag ! 1) \<and> tag ! 1 \<noteq> []"
  using assms by (auto simp: is_p_tag_def js_index_def split: option.splits if_splits)

lemma getFollowers_Inr:
  assumes "getFollowers w userPubkey = (acts, Inr followers)"
  obtains evs where "follow_query w = Inr evs" "evs \<noteq> []"
    "followers = take 50 (map (\<lambda>tag. tag ! 1) (filter is_p_tag (tags (evs ! 0))))"
    "followers \<noteq> []"
  using assms
  by (auto simp: getFollowers_def Let_def split: sum.splits if_splits)

text \<open>
  Claim C10. Every identity that \<open>getFollowers\<close> returns is a non-empty string and is
  the second element of a tag of the follow list event whose first element is \<open>p\<close>; tags
  \<open>p\<close> without a second element or with an empty one contribute nothing.
\<close>

theorem getFollowers_identities:
  assumes "getFollowers w userPubkey = (acts, Inr followers)" and "f \<in> set followers"
  shows "f \<noteq> [] \<and>
     (\<exists>evs tag. follow_query w = Inr evs \<and> evs \<noteq> [] \<and> tag \<in> set (tags (evs ! 0)) \<and>
        js_index tag 0 = Some ''p'' \<and> js_index tag 1 = Some f)"
proof -
  from assms(1) obtain evs where q: "follow_query w = Inr evs" "evs \<noteq> []"
    and fs: "followers = take 50 (map (\<lambda>tag. tag ! 1) (filter is_p_tag (tags (evs ! 0))))"
    by (rule getFollowers_Inr)
  from assms(2) have "f \<in> set (map (\<lambda>tag. tag ! 1) (filter is_p_tag (tags (evs ! 0))))"
    unfolding fs by (rule in_set_takeD)
  then obtain tag where tag: "tag \<in> set (tags (evs ! 0))" "is_p_tag tag" "f = tag ! 1"
    by auto
  from tag(2) have "js_index tag 0 = Some ''p'' \<and> js_index tag 1 = Some (tag ! 1) \<and> tag ! 1 \<noteq> []"
    by (rule is_p_tag_nth)
  with tag(3) have p: "js_index tag 0 = Some ''p''" "js_index tag 1 = Some f" "f \<noteq> []"
    by simp_all
  have "follow_query w = Inr evs \<and> evs \<noteq> [] \<and> tag \<in> set (tags (evs ! 0)) \<and>
        js_index tag 0 = Some ''p'' \<and> js_index tag 1 = Some f"
    using q tag(1) p by simp
  then have "\<exists>evs tag. follow_query w = Inr evs \<and> evs \<noteq> [] \<and> tag \<in> set (tags (evs ! 0)) \<and>
        js_index tag 0 = Some ''p'' \<and> js_index tag 1 = Some f"
    by (intro exI)
  with p(3) show ?thesis by (rule conjI)
qed

lemma getFollowers_follow_world:
  "getFollowers follow_world ''pk'' =
     ([SetCurrentPhase ''Fetching your follow list...'', SetProgress 10, AwaitFollowQuery ''pk'',
       SetProgress 25], Inr [''alice''])"
  by (simp add: getFollowers_def follow_world_def Let_def is_p_tag_def js_index_def)

theorem getFollowers_identities_witness:
  "getFollowers follow_world ''pk'' =
     ([SetCurrentPhase ''Fetching your follow list...'', SetProgress 10, AwaitFollowQuery ''pk'',
       SetProgress 25], Inr [''alice'']) \<and>
   ''alice'' \<in> set [''alice''] \<and> ''alice'' \<noteq> [] \<and>
   (\<exists>evs tag. follow_query follow_world = Inr evs \<and> evs \<noteq> [] \<and> tag \<in> set (tags (evs ! 0)) \<and>
        js_index tag 0 = Some ''p'' \<and> js_index tag 1 = Some ''alice'')"
  using getFollowers_identities
          [of follow_world "''pk''"
              "[SetCurrentPhase ''Fetching your follow list...'', SetProgress 10,
                AwaitFollowQuery ''pk'', SetProgress 25]"
              "[''alice'']" "''alice''"]
  by (simp add: getFollowers_follow_world)


lemma exec_Cons: "exec s (a # xs) = exec (apply_action s a) xs"
  by (simp add: exec_def)

lemma exec_Nil: "exec s [] = s"
  by (simp add: exec_def)

lemma isRunning_initial_state: "isRunning initial_state = False"
  by (simp add: initial_state_def)





lemma startTest_empty_relays:
  assumes "getFollowers w userPubkey = (acts, Inr followers)"
  shows "startTest w False userPubkey [] =
     [SetIsRunning True, SetResults None, SetOverlapResults None, SetProgress 0, SetError None] @
     acts @
     [SetCurrentPhase (''Analyzing '' @ show_nat 0 @ '' relays with '' @
                       show_nat (length followers) @ '' followers...''),
      SetProgress 30,
      SetCurrentPhase ''Calculating overlap...'', SetProgress 95,
      SetOverlapResults (Some []),
      SetCurrentPhase ''Analysis completed!'', SetProgress 100,
      SetResults (Some []),
      SetError (Some ''All relays failed analysis. Please check your internet connection and try again.''),
      SetIsRunning False]"
  using assms
  by (simp add: startTest_def try_actions_def finish_actions_def calculateOverlap_def Let_def)

text \<open>
  Claim C1 asks that a run with an empty relay list and a resolvable follow list leaves
  the error absent. In the code the list of failed results and the list of all results
  are both empty, their lengths are equal, and the run ends with \<open>results = []\<close>,
  \<open>overlapResults = []\<close> and the error set to the message for "all relays failed".
\<close>

theorem startTest_empty_relays_sets_error:
  "results (exec initial_state (startTest follow_world (isRunning initial_state) ''pk'' [])) = Some [] \<and>
   overlapResults (exec initial_state (startTest follow_world (isRunning initial_state) ''pk'' [])) = Some [] \<and>
   isRunning (exec initial_state (startTest follow_world (isRunning initial_state) ''pk'' [])) = False \<and>
   run_error (exec initial_state (startTest follow_world (isRunning initial_state) ''pk'' [])) =
     Some ''All relays failed analysis. Please check your internet connection and try again.''"
  unfolding isRunning_initial_state startTest_empty_relays [OF getFollowers_follow_world]
  by (simp add: exec_def)

lemma getFollowers_calm:
  "getFollowers w userPubkey = (acts, r) \<Longrightarrow> \<forall>a \<in> set acts. calm a"
  by (auto simp: getFollowers_def Let_def calm_def split: sum.splits if_splits)

lemma probe_loop_calm:
  "probe_loop w userPubkey followers n i rest testResults = (acts, r) \<Longrightarrow>
     \<forall>a \<in> set acts. calm a"
proof (induction rest arbitrary: i testResults acts r)
  case Nil
  then show ?case by simp
next
  case (Cons url rest)
  show ?case
  proof (cases "testRelayPerformance (probe_worlds w i) userPubkey url followers")
    case (Inl err)
    with Cons.prems show ?thesis by (auto simp: calm_def)
  next
    case (Inr result)
    obtain acts' r' where
      rec: "probe_loop w userPubkey followers n (Suc i) rest (testResults @ [result]) = (acts', r')"
      by (cases "probe_loop w userPubkey followers n (Suc i) rest (testResults @ [result])")
    from Cons.IH [OF rec] have "\<forall>a \<in> set acts'. calm a" .
    with Cons.prems Inr rec show ?thesis by (auto simp: calm_def)
  qed
qed

lemma catch_actions_calm: "\<forall>a \<in> set (catch_actions err). calm a"
  by (simp add: catch_actions_def calm_def)

lemma finish_actions_shape:
  "\<exists>P E. finish_actions t = P @ [SetResults (Some t)] @ E \<and>
         (\<forall>a \<in> set P. calm a) \<and> (\<forall>a \<in> set E. calm a \<and> \<not> is_await a)"
proof -
  let ?P = "[SetCurrentPhase ''Calculating overlap...'', SetProgress 95,
             SetOverlapResults (Some (calculateOverlap t)),
             SetCurrentPhase ''Analysis completed!'', SetProgress 100]"
  obtain E where E: "finish_actions t = ?P @ [SetResults (Some t)] @ E"
    and "(\<forall>a \<in> set E. calm a \<and> \<not> is_await a)"
    by (auto simp: finish_actions_def Let_def calm_def)
  moreover have "\<forall>a \<in> set ?P. calm a" by (simp add: calm_def)
  ultimately show ?thesis by blast
qed

lemma try_actions_shape:
  "(\<exists>A rs E. try_actions w userPubkey relays = A @ [SetResults (Some rs)] @ E \<and>
       (\<forall>a \<in> set A. calm a) \<and> (\<forall>a \<in> set E. calm a \<and> \<not> is_await a)) \<or>
   (\<forall>a \<in> set (try_actions w userPubkey relays). calm a)"
proof -
  obtain acts r where gf: "getFollowers w userPubkey = (acts, r)"
    by (cases "getFollowers w userPubkey")
  then have c0: "\<forall>a \<in> set acts. calm a" by (rule getFollowers_calm)
  show ?thesis
  proof (cases r)
    case (Inl err)
    with gf c0 catch_actions_calm [of err] have "\<forall>a \<in> set (try_actions w userPubkey relays). calm a"
      by (auto simp: try_actions_def)
    then show ?thesis ..
  next
    case (Inr followers)
    obtain acts2 r2 where pl: "probe_loop w userPubkey followers (length relays) 0 relays [] = (acts2, r2)"
      by (cases "probe_loop w userPubkey followers (length relays) 0 relays []")
    then have c2: "\<forall>a \<in> set acts2. calm a" by (rule probe_loop_calm)
    let ?acts1 = "acts @
                 [SetCurrentPhase (''Analyzing '' @ show_nat (length relays) @ '' relays with '' @
                                   show_nat (length followers) @ '' followers...''),
                  SetProgress 30]"
    have c1: "\<forall>a \<in> set ?acts1. calm a" using c0 by (auto simp: calm_def)
    show ?thesis
    proof (cases r2)
      case (Inl err)
      with gf Inr pl have "try_actions w userPubkey relays = ?acts1 @ acts2 @ catch_actions err"
        by (simp add: try_actions_def Let_def)
      with c1 c2 catch_actions_calm [of err]
      have "\<forall>a \<in> set (try_actions w userPubkey relays). calm a" by auto
      then show ?thesis ..
    next
      case (Inr testResults)
      with gf \<open>r = Inr followers\<close> pl
      have t: "try_actions w userPubkey relays = ?acts1 @ acts2 @ finish_actions testResults"
        by (simp add: try_actions_def Let_def)
      obtain P E where fin: "finish_actions testResults = P @ [SetResults (Some testResults)] @ E"
        and cP: "\<forall>a \<in> set P. calm a" and cE: "\<forall>a \<in> set E. calm a \<and> \<not> is_await a"
        using finish_actions_shape by blast
      from t fin have "try_actions w userPubkey relays =
          (?acts1 @ acts2 @ P) @ [SetResults (Some testResults)] @ E" by simp
      moreover from c1 c2 cP have "\<forall>a \<in> set (?acts1 @ acts2 @ P). calm a" by auto
      ultimately show ?thesis using cE by blast
    qed
  qed
qed


lemma visible_from_no_await:
  "\<forall>a \<in> set acts. \<not> is_await a \<Longrightarrow> visible_from s acts = [exec s acts]"
  by (induction acts arbitrary: s) (simp_all add: exec_Nil exec_Cons)

lemma apply_await: "is_await a \<Longrightarrow> apply_action s a = s"
  by (cases a) simp_all

lemma apply_keeps_results: "\<not> sets_results a \<Longrightarrow> results (apply_action s a) = results s"
  by (cases a) simp_all

text \<open>
  While the effects performed so far have left \<open>results\<close> absent and none of the effects
  before the last \<open>await\<close> sets it, every visible state but the final one has \<open>results\<close>
  absent.
\<close>

lemma visible_from_results:
  assumes "results s = None"
    and "\<forall>a \<in> set R. \<not> sets_results a" and "\<forall>a \<in> set Y. \<not> is_await a"
    and "v \<in> set (visible_from s (R @ Y))"
  shows "v = exec s (R @ Y) \<or> results v = None"
  using assms
proof (induction R arbitrary: s)
  case Nil
  then show ?case by (simp add: visible_from_no_await)
next
  case (Cons a R)
  from Cons.prems(2) have a: "\<not> sets_results a" and R: "\<forall>a \<in> set R. \<not> sets_results a"
    by simp_all
  show ?case
  proof (cases "is_await a")
    case True
    with Cons.prems(4) have "v = s \<or> v \<in> set (visible_from s (R @ Y))" by simp
    then show ?thesis
    proof
      assume "v = s"
      with Cons.prems(1) show ?thesis by simp
    next
      assume "v \<in> set (visible_from s (R @ Y))"
      from Cons.IH [OF Cons.prems(1) R Cons.prems(3) this]
      show ?thesis using True by (simp add: exec_Cons apply_await)
    qed
  next
    case False
    with Cons.prems(4) have v: "v \<in> set (visible_from (apply_action s a) (R @ Y))" by simp
    from a Cons.prems(1) have "results (apply_action s a) = None"
      by (simp add: apply_keeps_results)
    from Cons.IH [OF this R Cons.prems(3) v]
    show ?thesis by (simp add: exec_Cons)
  qed
qed

text \<open>
  The shape of a run that passes the guard: after the first two resets come effects that
  do not touch \<open>results\<close>, then effects without an \<open>await\<close>, the last of which is
  \<open>setIsRunning(false)\<close>.
\<close>

lemma startTest_shape:
  "\<exists>R Y. startTest w False userPubkey relays =
            SetIsRunning True # SetResults None # (R @ Y @ [SetIsRunning False]) \<and>
          (\<forall>a \<in> set R. \<not> sets_results a) \<and> (\<forall>a \<in> set Y. \<not> is_await a)"
proof -
  let ?init = "[SetOverlapResults None, SetProgress 0, SetError None]"
  from try_actions_shape [of w userPubkey relays] show ?thesis
  proof
    assume c: "\<forall>a \<in> set (try_actions w userPubkey relays). calm a"
    have "startTest w False userPubkey relays =
            SetIsRunning True # SetResults None #
              ((?init @ try_actions w userPubkey relays) @ [] @ [SetIsRunning False])"
      by (simp add: startTest_def)
    moreover have "\<forall>a \<in> set (?init @ try_actions w userPubkey relays). \<not> sets_results a"
      using c by (simp add: calm_def)
    moreover have "\<forall>a \<in> set ([] :: action list). \<not> is_await a" by simp
    ultimately show ?thesis by (intro exI conjI)
  next
    assume "\<exists>A rs E. try_actions w userPubkey relays = A @ [SetResults (Some rs)] @ E \<and>
       (\<forall>a \<in> set A. calm a) \<and> (\<forall>a \<in> set E. calm a \<and> \<not> is_await a)"
    then obtain A rs E where t: "try_actions w userPubkey relays = A @ [SetResults (Some rs)] @ E"
      and cA: "\<forall>a \<in> set A. calm a" and cE: "\<forall>a \<in> set E. calm a \<and> \<not> is_await a"
      by blast
    have "startTest w False userPubkey relays =
            SetIsRunning True # SetResults None #
              ((?init @ A) @ (SetResults (Some rs) # E) @ [SetIsRunning False])"
      by (simp add: startTest_def t)
    moreover have "\<forall>a \<in> set (?init @ A). \<not> sets_results a"
      using cA by (simp add: calm_def)
    moreover have "\<forall>a \<in> set (SetResults (Some rs) # E). \<not> is_await a"
      using cE by simp
    ultimately show ?thesis by (intro exI conjI)
  qed
qed

text \<open>
  In a run that passes the guard, a visible state after the call in which \<open>results\<close> is
  present is the final state, and there \<open>isRunning\<close> is false.
\<close>

lemma startTest_visible_results:
  assumes "v \<in> set (visible_from s (startTest w False userPubkey relays))"
    and "results v \<noteq> None"
  shows "\<not> isRunning v"
proof -
  obtain R Y where sh: "startTest w False userPubkey relays =
            SetIsRunning True # SetResults None # (R @ Y @ [SetIsRunning False])"
    and R: "\<forall>a \<in> set R. \<not> sets_results a" and Y: "\<forall>a \<in> set Y. \<not> is_await a"
    using startTest_shape by blast
  let ?s2 = "apply_action (apply_action s (SetIsRunning True)) (SetResults None)"
  let ?Y = "Y @ [SetIsRunning False]"
  have Y': "\<forall>a \<in> set ?Y. \<not> is_await a" using Y by simp
  from assms(1) have "v \<in> set (visible_from ?s2 (R @ ?Y))"
    unfolding sh by simp
  moreover have "results ?s2 = None" by simp
  ultimately have "v = exec ?s2 (R @ ?Y) \<or> results v = None"
    using R Y' by (intro visible_from_results)
  then have "v = exec ?s2 (R @ ?Y)"
  proof
    assume "v = exec ?s2 (R @ ?Y)"
    then show ?thesis .
  next
    assume "results v = None"
    with assms(2) show ?thesis by contradiction
  qed
  also have "\<dots> = apply_action (exec ?s2 (R @ Y)) (SetIsRunning False)"
    by (simp add: exec_def)
  finally show ?thesis by simp
qed

lemma startTest_ok_world:
  "startTest ok_world False ''pk'' [''wss://r1''] =
     [SetIsRunning True, SetResults None, SetOverlapResults None, SetProgress 0, SetError None,
      SetCurrentPhase ''Fetching your follow list...'', SetProgress 10, AwaitFollowQuery ''pk'',
      SetProgress 25,
      SetCurrentPhase (''Analyzing '' @ show_nat 1 @ '' relays with '' @ show_nat 1 @ '' followers...''),
      SetProgress 30,
      SetCurrentPhase ''Analyzing r1...'', SetProgress 30, AwaitProbe ''wss://r1'',
      SetCurrentPhase ''Calculating overlap...'', SetProgress 95,
      SetOverlapResults (Some []),
      SetCurrentPhase ''Analysis completed!'', SetProgress 100,
      SetResults (Some [\<lparr> relay = ''wss://r1'', success = True, latency = 6, bandwidth = 20000,
                          duration = 5, eventCount = 1, totalBytes = 100, followerCount = 1,
                          eventIds = [''e1''], error = None \<rparr>]),
      SetIsRunning False]"
  by (simp add: startTest_def try_actions_def getFollowers_def ok_world_def
        Let_def is_p_tag_def js_index_def testRelayPerformance_def testRelayPerformance_try_def
        late_first_world_def finish_actions_def calculateOverlap_def)

text \<open>
  Claim C4. Within a run of \<open>startTest\<close>, called through any function of the hook and
  in any state, take two of the states that can be seen, the first with \<open>results\<close> absent
  and a later one with \<open>results\<close> present: in the later one \<open>isRunning\<close> is false. The
  states need not be consecutive, so the statement holds whichever of the commits React
  renders.
\<close>

theorem startTest_results_visible:
  assumes "i < j" and "j < length (visible_states s (startTest w captured userPubkey relays))"
    and "results (visible_states s (startTest w captured userPubkey relays) ! i) = None"
    and "results (visible_states s (startTest w captured userPubkey relays) ! j) \<noteq> None"
  shows "\<not> isRunning (visible_states s (startTest w captured userPubkey relays) ! j)"
proof (cases captured)
  case True
  then have vs: "visible_states s (startTest w captured userPubkey relays) = [s, s]"
    by (simp add: startTest_def visible_states_def)
  from assms(2) have "j < 2" unfolding vs by simp
  with assms(1) have "i = 0" "j = 1" by simp_all
  with assms(3,4) show ?thesis unfolding vs by simp
next
  case False
  let ?vf = "visible_from s (startTest w False userPubkey relays)"
  from assms(1) obtain j' where j: "j = Suc j'" by (cases j) simp_all
  with assms(2) False have "j' < length ?vf" by (simp add: visible_states_def)
  then have "?vf ! j' \<in> set ?vf" by (rule nth_mem)
  moreover from assms(4) False j have "results (?vf ! j') \<noteq> None"
    by (simp add: visible_states_def)
  ultimately have "\<not> isRunning (?vf ! j')" by (rule startTest_visible_results)
  with False j show ?thesis by (simp add: visible_states_def)
qed

theorem startTest_results_visible_witness:
  "(2::nat) < 3 \<and>
   3 < length (visible_states initial_state
                (startTest ok_world (isRunning initial_state) ''pk'' [''wss://r1''])) \<and>
   results (visible_states initial_state
             (startTest ok_world (isRunning initial_state) ''pk'' [''wss://r1'']) ! 2) = None \<and>
   results (visible_states initial_state
             (startTest ok_world (isRunning initial_state) ''pk'' [''wss://r1'']) ! 3) =
     Some [\<lparr> relay = ''wss://r1'', success = True, latency = 6, bandwidth = 20000,
             duration = 5, eventCount = 1, totalBytes = 100, followerCount = 1,
             eventIds = [''e1''], error = None \<rparr>] \<and>
   \<not> isRunning (visible_states initial_state
                  (startTest ok_world (isRunning initial_state) ''pk'' [''wss://r1'']) ! 3)"
  using startTest_results_visible
          [of 2 3 initial_state ok_world "isRunning initial_state" "''pk''" "[''wss://r1'']"]
  unfolding isRunning_initial_state startTest_ok_world
  by (simp add: visible_states_def initial_state_def)

end
